theory Spec2Isabelle
  imports Main
begin

section \<open>Needs and the authentication state\<close>

text \<open>
  A need is a string, a function or an object (\<^verbatim>\<open>typeof\<close> tells them apart in
  \<^verbatim>\<open>authorize\<close>). A function need is named; what it answers is given by the
  environment (\<open>needFn\<close> below). The payload \<open>'o\<close> of an object need is any value
  whose \<^verbatim>\<open>typeof\<close> is neither \<^verbatim>\<open>'string'\<close> nor \<^verbatim>\<open>'function'\<close>.
\<close>

datatype 'o need = StringNeed string | FunctionNeed string | ObjectNeed 'o

text \<open>
  \<^verbatim>\<open>AuthenticationState\<close>: \<open>needsProvided\<close> may be absent (\<open>None\<close>), as in the
  payload \<^verbatim>\<open>{loggedIn: false}\<close>; \<open>userFields\<close> stands for the fields a
  \<^verbatim>\<open>UserAuthenticationState\<close> adds.
\<close>

record ('o, 'u) AuthenticationState =
  loggedIn :: bool
  needsProvided :: "'o need list option"
  userFields :: 'u

text \<open>
  What the code calls but does not define. \<open>needFn f state provided extra\<close> is the
  outcome of awaiting the function need \<open>f\<close>: \<open>Inr b\<close> when it resolves (\<open>b\<close> its
  truthiness), \<open>Inl e\<close> when it throws or rejects. \<open>isMatch\<close> is lodash's
  \<^verbatim>\<open>isMatch(object, source)\<close>. \<open>network url i\<close> is the outcome of the \<open>i\<close>-th
  \<^verbatim>\<open>axios.get\<close> (counted from 0): the response data, or the failure.
  \<open>normalizeUrl\<close> is the helper of \<^verbatim>\<open>./url\<close>, \<open>href\<close> is
  \<^verbatim>\<open>window.location.href\<close>.
\<close>

record ('o, 'u, 'x) environment =
  needFn :: "string \<Rightarrow> ('o, 'u) AuthenticationState \<Rightarrow> 'o need list \<Rightarrow> 'x \<Rightarrow> string + bool"
  isMatch :: "'o \<Rightarrow> 'o \<Rightarrow> bool"
  network :: "string \<Rightarrow> nat \<Rightarrow> string + ('o, 'u) AuthenticationState"
  normalizeUrl :: "string \<Rightarrow> string"
  href :: string

section \<open>The need matcher\<close>

text \<open>\<^verbatim>\<open>Array.prototype.indexOf\<close>: the first index of the element, or -1.\<close>

fun indexOf :: "'a list \<Rightarrow> 'a \<Rightarrow> int" where
  "indexOf [] x = - 1"
| "indexOf (y # ys) x =
     (if y = x then 0 else (let i = indexOf ys x in if i < 0 then - 1 else i + 1))"

text \<open>
  The callback given to \<^verbatim>\<open>needsProvided.some\<close>: a provided need that is a string or
  a function is no candidate; any other is compared with \<^verbatim>\<open>isMatch(n, requiredNeed)\<close>.
\<close>

fun objectCandidate :: "('o, 'u, 'x) environment \<Rightarrow> 'o \<Rightarrow> 'o need \<Rightarrow> bool" where
  "objectCandidate env requiredNeed (StringNeed s) = False"
| "objectCandidate env requiredNeed (FunctionNeed f) = False"
| "objectCandidate env requiredNeed (ObjectNeed n) = isMatch env n requiredNeed"

text \<open>
  The \<^verbatim>\<open>for\<close> loop of \<^verbatim>\<open>authorize\<close>. The result is the list of the function
  needs invoked, in the order of their invocation, and the outcome of the returned
  promise: \<open>Inr b\<close> when it resolves with \<open>b\<close>, \<open>Inl e\<close> when an awaited function need
  rejects.
\<close>

fun authorizeLoop ::
  "('o, 'u, 'x) environment \<Rightarrow> ('o, 'u) AuthenticationState \<Rightarrow> 'o need list \<Rightarrow> 'o need list \<Rightarrow> 'x
    \<Rightarrow> string list \<times> (string + bool)" where
  "authorizeLoop env state [] provided extra = ([], Inr False)"
| "authorizeLoop env state (StringNeed s # rest) provided extra =
     (if indexOf provided (StringNeed s) \<ge> 0 then ([], Inr True)
      else authorizeLoop env state rest provided extra)"
| "authorizeLoop env state (FunctionNeed f # rest) provided extra =
     (case needFn env f state provided extra of
        Inl e \<Rightarrow> ([f], Inl e)
      | Inr truthy \<Rightarrow>
          if truthy then ([f], Inr True)
          else (let (invoked, r) = authorizeLoop env state rest provided extra
                in (f # invoked, r)))"
| "authorizeLoop env state (ObjectNeed r # rest) provided extra =
     (if list_ex (objectCandidate env r) provided then ([], Inr True)
      else authorizeLoop env state rest provided extra)"

text \<open>\<^verbatim>\<open>x || []\<close> for an array-typed \<open>x\<close>: null and undefined become the empty list.\<close>

definition orEmpty :: "'a list option \<Rightarrow> 'a list" where
  "orEmpty xs = (case xs of None \<Rightarrow> [] | Some ys \<Rightarrow> ys)"

definition authorize ::
  "('o, 'u, 'x) environment \<Rightarrow> ('o, 'u) AuthenticationState \<Rightarrow> 'o need list option \<Rightarrow>
    'o need list option \<Rightarrow> 'x \<Rightarrow> string list \<times> (string + bool)" where
  "authorize env state required provided extra =
     authorizeLoop env state (orEmpty required) (orEmpty provided) extra"

section \<open>The shared state of the module\<close>

text \<open>
  \<^verbatim>\<open>loginOptions\<close>, with the fields the functions below read. The two notifiers are
  callbacks of the application, taken to be supplied: a call to one of them is recorded
  in the event list of the world, and what \<^verbatim>\<open>popupFailedNotifier\<close> resolves to is
  an input of the callback that waits for it.
\<close>

record ('o, 'u) loginOptions =
  loginUrl :: string
  completeUrl :: string
  redirectionCompleteUrl :: "string option"
  stateUrl :: string
  nextQueryParam :: string
  loginStateTransformer ::
    "(('o, 'u) AuthenticationState \<Rightarrow> string + ('o, 'u) AuthenticationState) option"

text \<open>
  The callbacks pushed on \<^verbatim>\<open>loginData.promises\<close>: \<^verbatim>\<open>() => check()\<close>, the
  callback of \<^verbatim>\<open>login\<close> that resolves promise \<open>p\<close> with
  \<^verbatim>\<open>loginState.value.loggedIn\<close>, and the \<^verbatim>\<open>resolve\<close> of the promise \<open>p\<close>
  made by \<^verbatim>\<open>showLoginPopup\<close>.
\<close>

datatype waiter = RefreshWaiter | LoginResolver nat | PopupResolver nat

text \<open>How a promise of \<^verbatim>\<open>login\<close> or \<^verbatim>\<open>showLoginPopup\<close> was settled.\<close>

datatype 'm settlement = ResolvedWith bool | ResolvedMessage 'm | Rejected string

text \<open>
  A URL object: the arguments of \<^verbatim>\<open>new URL(url, base)\<close> and the parameters appended
  to \<^verbatim>\<open>searchParams\<close>, in order.
\<close>

record url =
  urlTarget :: string
  urlBase :: string
  searchParams :: "(string \<times> string) list"

text \<open>
  What the module does to its surroundings and to the waiter queue, in the order in
  which it happens.
\<close>

datatype ('o, 'u, 'x) event =
    Enqueued waiter
  | Invoked waiter
  | WindowOpened url
  | PopupFailedNotified
  | NoAccessNotified "('o, 'u) AuthenticationState" 'x
  | Redirected url

text \<open>
  \<open>promises\<close> is \<^verbatim>\<open>loginData.promises\<close>; \<open>promiseStates\<close> holds one entry for
  every promise made by \<^verbatim>\<open>login\<close> and \<^verbatim>\<open>showLoginPopup\<close> (\<open>None\<close> while
  pending), a promise being the index of its entry; \<open>fetches\<close> counts the requests
  sent to the state endpoint; \<open>assignments\<close> counts the assignments to
  \<^verbatim>\<open>loginState.value\<close>, each of which replaces the state object.
\<close>

record ('o, 'u, 'x, 'm) world =
  options :: "('o, 'u) loginOptions"
  loginState :: "('o, 'u) AuthenticationState"
  promises :: "waiter list"
  promiseStates :: "'m settlement option list"
  fetches :: nat
  assignments :: nat
  events :: "('o, 'u, 'x) event list"

definition newPromise :: "('o, 'u, 'x, 'm) world \<Rightarrow> nat \<times> ('o, 'u, 'x, 'm) world" where
  "newPromise w = (length (promiseStates w), w\<lparr>promiseStates := promiseStates w @ [None]\<rparr>)"

text \<open>Resolving or rejecting a promise: a promise that is settled stays as it is.\<close>

definition settle ::
  "nat \<Rightarrow> 'm settlement \<Rightarrow> ('o, 'u, 'x, 'm) world \<Rightarrow> ('o, 'u, 'x, 'm) world" where
  "settle p v w =
     (if p < length (promiseStates w) then
        (case promiseStates w ! p of
           None \<Rightarrow> w\<lparr>promiseStates := (promiseStates w)[p := Some v]\<rparr>
         | Some old \<Rightarrow> w)
      else w)"

definition pending :: "('o, 'u, 'x, 'm) world \<Rightarrow> nat \<Rightarrow> bool" where
  "pending w p = (p < length (promiseStates w) \<and> promiseStates w ! p = None)"

definition emit ::
  "('o, 'u, 'x) event list \<Rightarrow> ('o, 'u, 'x, 'm) world \<Rightarrow> ('o, 'u, 'x, 'm) world" where
  "emit es w = w\<lparr>events := events w @ es\<rparr>"

section \<open>The session state store\<close>

definition check ::
  "('o, 'u, 'x) environment \<Rightarrow> bool \<Rightarrow> ('o, 'u, 'x, 'm) world \<Rightarrow>
    (string + ('o, 'u) AuthenticationState) \<times> ('o, 'u, 'x, 'm) world" where
  "check env localStateSufficient w =
     (if loggedIn (loginState w) \<and> localStateSufficient then (Inr (loginState w), w)
      else
        (let w1 = w\<lparr>fetches := fetches w + 1\<rparr> in
         case network env (stateUrl (options w)) (fetches w) of
           Inl e \<Rightarrow> (Inl e, w1)
         | Inr payload \<Rightarrow>
             (case loginStateTransformer (options w) of
                Some transformer \<Rightarrow>
                  (case transformer payload of
                     Inl e \<Rightarrow> (Inl e, w1)
                   | Inr s \<Rightarrow> (Inr s, w1\<lparr>loginState := s, assignments := assignments w1 + 1\<rparr>))
              | None \<Rightarrow>
                  (Inr payload, w1\<lparr>loginState := payload, assignments := assignments w1 + 1\<rparr>))))"

section \<open>The popup handshake coordinator\<close>

text \<open>
  The function \<^verbatim>\<open>notify\<close> declared inside the message handler: it calls the waiters
  of the list it is given, in the order of the list, awaiting each. An awaited
  \<^verbatim>\<open>check()\<close> that rejects ends the loop.
\<close>

fun invoke ::
  "('o, 'u, 'x) environment \<Rightarrow> 'm \<Rightarrow> waiter \<Rightarrow> ('o, 'u, 'x, 'm) world \<Rightarrow>
    (string + unit) \<times> ('o, 'u, 'x, 'm) world" where
  "invoke env msg RefreshWaiter w =
     (case check env False w of (Inl e, w') \<Rightarrow> (Inl e, w') | (Inr s, w') \<Rightarrow> (Inr (), w'))"
| "invoke env msg (LoginResolver p) w =
     (Inr (), settle p (ResolvedWith (loggedIn (loginState w))) w)"
| "invoke env msg (PopupResolver p) w = (Inr (), settle p (ResolvedMessage msg) w)"

fun notify ::
  "('o, 'u, 'x) environment \<Rightarrow> 'm \<Rightarrow> waiter list \<Rightarrow> ('o, 'u, 'x, 'm) world \<Rightarrow>
    (string + unit) \<times> ('o, 'u, 'x, 'm) world" where
  "notify env msg [] w = (Inr (), w)"
| "notify env msg (p # ps) w =
     (case invoke env msg p (emit [Invoked p] w) of
        (Inl e, w') \<Rightarrow> (Inl e, w')
      | (Inr u, w') \<Rightarrow> notify env msg ps w')"

text \<open>
  \<^verbatim>\<open>loginData.channel.onmessage\<close>: the handler takes the queue, empties it, declares
  \<^verbatim>\<open>notify\<close> and returns. It does not call \<^verbatim>\<open>notify\<close>.
\<close>

definition onmessage :: "'m \<Rightarrow> ('o, 'u, 'x, 'm) world \<Rightarrow> ('o, 'u, 'x, 'm) world" where
  "onmessage msg w = w\<lparr>promises := []\<rparr>"

text \<open>
  \<^verbatim>\<open>_handleFailedLoginPopup(reject)\<close> calls the notifier and hands its promise a
  callback; \<open>handleFailedLoginPopupThen\<close> is that callback, run when the notifier
  resolves with \<open>redirectionOk\<close>, \<open>p\<close> being the promise that \<^verbatim>\<open>reject\<close> rejects.
  A notifier that rejects or never resolves runs no callback.
\<close>

definition handleFailedLoginPopup :: "('o, 'u, 'x, 'm) world \<Rightarrow> ('o, 'u, 'x, 'm) world" where
  "handleFailedLoginPopup w = emit [PopupFailedNotified] w"

definition handleFailedLoginPopupThen ::
  "('o, 'u, 'x) environment \<Rightarrow> nat \<Rightarrow> bool \<Rightarrow> ('o, 'u, 'x, 'm) world \<Rightarrow> ('o, 'u, 'x, 'm) world" where
  "handleFailedLoginPopupThen env p redirectionOk w =
     (if \<not> redirectionOk then
        settle p (Rejected ''Could not open popup window and redirection has not been allowed'') w
      else
        emit [Redirected
          \<lparr>urlTarget = loginUrl (options w), urlBase = href env,
           searchParams =
             [(nextQueryParam (options w),
               (case redirectionCompleteUrl (options w) of
                  Some u \<Rightarrow> normalizeUrl env u
                | None \<Rightarrow> href env))]\<rparr>] w)"

text \<open>
  \<^verbatim>\<open>login()\<close>; \<open>currentPopup\<close> tells whether \<^verbatim>\<open>window.open\<close> returned a window.
  The result is the promise returned.
\<close>

definition login ::
  "('o, 'u, 'x) environment \<Rightarrow> bool \<Rightarrow> ('o, 'u, 'x, 'm) world \<Rightarrow> nat \<times> ('o, 'u, 'x, 'm) world" where
  "login env currentPopup w =
     (let w1 = emit [WindowOpened
                 \<lparr>urlTarget = loginUrl (options w), urlBase = href env,
                  searchParams =
                    [(nextQueryParam (options w), normalizeUrl env (completeUrl (options w)))]\<rparr>] w;
          (p, w2) = newPromise w1
      in if \<not> currentPopup then (p, handleFailedLoginPopup w2)
         else
           (let w3 = emit [Enqueued RefreshWaiter] (w2\<lparr>promises := RefreshWaiter # promises w2\<rparr>);
                w4 = emit [Enqueued (LoginResolver p)] (w3\<lparr>promises := promises w3 @ [LoginResolver p]\<rparr>)
            in (p, w4)))"

definition showLoginPopup :: "'x \<Rightarrow> ('o, 'u, 'x, 'm) world \<Rightarrow> nat \<times> ('o, 'u, 'x, 'm) world" where
  "showLoginPopup extra w =
     (let (p, w1) = newPromise w;
          w2 = emit [Enqueued (PopupResolver p)] (w1\<lparr>promises := promises w1 @ [PopupResolver p]\<rparr>)
      in (p, emit [NoAccessNotified (loginState w2) extra] w2))"

section \<open>The authorization orchestrator\<close>

text \<open>
  \<^verbatim>\<open>loginAndAuthorize\<close> runs up to its \<^verbatim>\<open>await showLoginPopup(extra)\<close> and is
  then suspended on the promise \<open>p\<close>, holding \<^verbatim>\<open>authState\<close>; or it returns without
  suspending. \<open>loginAndAuthorizeResume\<close> is the rest of the function: it has nothing
  to run (\<open>None\<close>) while the promise is pending.
\<close>

datatype ('o, 'u) suspension =
    Awaiting nat "('o, 'u) AuthenticationState"
  | Returned "string list \<times> (string + bool)"

definition loginAndAuthorizeStart ::
  "('o, 'u, 'x) environment \<Rightarrow> 'o need list option \<Rightarrow> 'x \<Rightarrow> ('o, 'u, 'x, 'm) world \<Rightarrow>
    ('o, 'u) suspension \<times> ('o, 'u, 'x, 'm) world" where
  "loginAndAuthorizeStart env required extra w =
     (case check env True w of
        (Inl e, w1) \<Rightarrow> (Returned ([], Inl e), w1)
      | (Inr authState, w1) \<Rightarrow>
          if \<not> loggedIn authState then
            (let (p, w2) = showLoginPopup extra w1 in (Awaiting p authState, w2))
          else (Returned (authorize env authState required (needsProvided authState) extra), w1))"

definition loginAndAuthorizeResume ::
  "('o, 'u, 'x) environment \<Rightarrow> 'o need list option \<Rightarrow> 'x \<Rightarrow> nat \<Rightarrow> ('o, 'u) AuthenticationState \<Rightarrow>
    ('o, 'u, 'x, 'm) world \<Rightarrow> (string list \<times> (string + bool)) option" where
  "loginAndAuthorizeResume env required extra p authState w =
     (if p < length (promiseStates w) then
        (case promiseStates w ! p of
           None \<Rightarrow> None
         | Some (Rejected e) \<Rightarrow> Some ([], Inl e)
         | Some (ResolvedWith b) \<Rightarrow>
             Some (if \<not> loggedIn (loginState w) then ([], Inr False)
                   else authorize env authState required (needsProvided authState) extra)
         | Some (ResolvedMessage m) \<Rightarrow>
             Some (if \<not> loggedIn (loginState w) then ([], Inr False)
                   else authorize env authState required (needsProvided authState) extra))
      else None)"

section \<open>Reading the event list\<close>

fun enqueuedWaiter :: "('o, 'u, 'x) event \<Rightarrow> waiter list" where
  "enqueuedWaiter (Enqueued x) = [x]"
| "enqueuedWaiter e = []"

fun invokedWaiter :: "('o, 'u, 'x) event \<Rightarrow> waiter list" where
  "invokedWaiter (Invoked x) = [x]"
| "invokedWaiter e = []"

fun redirectTarget :: "('o, 'u, 'x) event \<Rightarrow> url list" where
  "redirectTarget (Redirected u) = [u]"
| "redirectTarget e = []"

text \<open>The waiters in the order in which they were put on the queue.\<close>

definition enqueueOrder :: "('o, 'u, 'x) event list \<Rightarrow> waiter list" where
  "enqueueOrder es = concat (map enqueuedWaiter es)"

text \<open>The waiters that were called, in the order of the calls.\<close>

definition invocations :: "('o, 'u, 'x) event list \<Rightarrow> waiter list" where
  "invocations es = concat (map invokedWaiter es)"

text \<open>The full-page redirects performed.\<close>

definition redirections :: "('o, 'u, 'x) event list \<Rightarrow> url list" where
  "redirections es = concat (map redirectTarget es)"

fun isFunctionNeed :: "'o need \<Rightarrow> bool" where
  "isFunctionNeed (FunctionNeed f) = True"
| "isFunctionNeed n = False"

text \<open>A function need that resolves, with a falsy and with a truthy value.\<close>

definition resolvesFalsy ::
  "('o, 'u, 'x) environment \<Rightarrow> ('o, 'u) AuthenticationState \<Rightarrow> 'o need list \<Rightarrow> 'x \<Rightarrow> string \<Rightarrow> bool" where
  "resolvesFalsy env state provided extra f = (needFn env f state provided extra = Inr False)"

definition resolvesTruthy ::
  "('o, 'u, 'x) environment \<Rightarrow> ('o, 'u) AuthenticationState \<Rightarrow> 'o need list \<Rightarrow> 'x \<Rightarrow> string \<Rightarrow> bool" where
  "resolvesTruthy env state provided extra f = (needFn env f state provided extra = Inr True)"

text \<open>A promise that was resolved (not rejected, not pending).\<close>

fun fulfilled :: "'m settlement option \<Rightarrow> bool" where
  "fulfilled (Some (ResolvedWith b)) = True"
| "fulfilled (Some (ResolvedMessage m)) = True"
| "fulfilled s = False"

text \<open>
  The worlds the module can reach from \<open>w0\<close>: each of its functions may be called,
  the callback of a failed popup may run, and a message may arrive on the channel, in
  any order and with any arguments.
\<close>

inductive reachable ::
  "('o, 'u, 'x) environment \<Rightarrow> ('o, 'u, 'x, 'm) world \<Rightarrow> ('o, 'u, 'x, 'm) world \<Rightarrow> bool"
  for env :: "('o, 'u, 'x) environment" and w0 :: "('o, 'u, 'x, 'm) world" where
  start: "reachable env w0 w0"
| checked: "reachable env w0 w \<Longrightarrow> reachable env w0 (snd (check env b w))"
| loginCalled: "reachable env w0 w \<Longrightarrow> reachable env w0 (snd (login env popup w))"
| notifierResolved:
    "reachable env w0 w \<Longrightarrow> reachable env w0 (handleFailedLoginPopupThen env p ok w)"
| popupShown: "reachable env w0 w \<Longrightarrow> reachable env w0 (snd (showLoginPopup extra w))"
| authorizeStarted:
    "reachable env w0 w \<Longrightarrow> reachable env w0 (snd (loginAndAuthorizeStart env required extra w))"
| messageArrived: "reachable env w0 w \<Longrightarrow> reachable env w0 (onmessage msg w)"

section \<open>Concrete values for the scenarios\<close>

text \<open>
  Modelled from the spec: lodash's \<^verbatim>\<open>isMatch\<close> is not among the sources. The spec
  calls it a partial, deep subset match in which extra fields on the provided side are
  ignored: every field of the source is a field of the object, with a value that
  matches in the same way; values that are not objects match when they are equal.
\<close>

datatype jvalue =
  JNull | JBool bool | JNumber int | JString string | JObject "(string \<times> jvalue) list"

fun isMatchModel :: "jvalue \<Rightarrow> jvalue \<Rightarrow> bool" where
  "isMatchModel obj (JObject src) =
     (case obj of
        JObject members \<Rightarrow>
          list_all (\<lambda>(k, v). case map_of members k of None \<Rightarrow> False | Some w \<Rightarrow> isMatchModel w v) src
      | _ \<Rightarrow> False)"
| "isMatchModel obj src = (obj = src)"

text \<open>The state the module starts with, and the state of a session that is not logged in.\<close>

definition guest :: "(jvalue, unit) AuthenticationState" where
  "guest = \<lparr>loggedIn = False, needsProvided = Some [], userFields = ()\<rparr>"

definition anonymous :: "(jvalue, unit) AuthenticationState" where
  "anonymous = \<lparr>loggedIn = False, needsProvided = None, userFields = ()\<rparr>"

definition john :: "(jvalue, unit) AuthenticationState" where
  "john = \<lparr>loggedIn = True, needsProvided = Some [StringNeed ''editor''], userFields = ()\<rparr>"

text \<open>
  An environment: the function need \<^verbatim>\<open>yes\<close> resolves truthy, \<^verbatim>\<open>no\<close> resolves
  falsy, any other rejects; the state endpoint answers that nobody is logged in.
\<close>

definition exampleEnv :: "(jvalue, unit, unit) environment" where
  "exampleEnv =
     \<lparr>needFn = (\<lambda>f state provided extra.
         if f = ''yes'' then Inr True else if f = ''no'' then Inr False else Inl ''failed''),
      isMatch = isMatchModel,
      network = (\<lambda>url i. if url = ''/auth/state'' then Inr anonymous else Inl ''Network Error''),
      normalizeUrl = (\<lambda>u. u),
      href = ''https://localhost:8080/''\<rparr>"

text \<open>The options \<^verbatim>\<open>usePopupLogin({})\<close> sets, and the world right after it.\<close>

definition defaultOptions :: "(jvalue, unit) loginOptions" where
  "defaultOptions =
     \<lparr>loginUrl = ''/auth/login'', completeUrl = ''/auth/complete'',
      redirectionCompleteUrl = None, stateUrl = ''/auth/state'', nextQueryParam = ''next'',
      loginStateTransformer = None\<rparr>"

definition initialWorld :: "(jvalue, unit, unit, string) world" where
  "initialWorld =
     \<lparr>options = defaultOptions, loginState = guest, promises = [], promiseStates = [],
      fetches = 0, assignments = 0, events = []\<rparr>"

text \<open>A world whose cached state is a logged-in session.\<close>

definition cachedWorld :: "(jvalue, unit, unit, string) world" where
  "cachedWorld = initialWorld\<lparr>loginState := john\<rparr>"

text \<open>A world whose cached state is what the state endpoint answers.\<close>

definition anonymousWorld :: "(jvalue, unit, unit, string) world" where
  "anonymousWorld = initialWorld\<lparr>loginState := anonymous\<rparr>"

section \<open>Facts about the need matcher\<close>

lemma orEmpty_simps [simp]: "orEmpty None = []" "orEmpty (Some xs) = xs"
  by (simp_all add: orEmpty_def)

lemma indexOf_nonneg_iff: "(indexOf xs x \<ge> 0) = (x \<in> set xs)"
  by (induction xs) (auto simp: Let_def)

lemma list_ex_objectCandidate:
  "list_ex (objectCandidate env r) ps = (\<exists>v. ObjectNeed v \<in> set ps \<and> isMatch env v r)"
proof -
  have "objectCandidate env r n = (\<exists>v. n = ObjectNeed v \<and> isMatch env v r)" for n
    by (cases n) auto
  then show ?thesis by (auto simp: list_ex_iff)
qed

text \<open>
  On function needs alone the loop calls the needs that resolve falsy, then the first
  that does not, and returns what that one gives.
\<close>

lemma authorizeLoop_functions:
  "authorizeLoop env state (map FunctionNeed fs) ps extra =
     (takeWhile (resolvesFalsy env state ps extra) fs
        @ take 1 (dropWhile (resolvesFalsy env state ps extra) fs),
      case dropWhile (resolvesFalsy env state ps extra) fs of
        [] \<Rightarrow> Inr False
      | f # rest \<Rightarrow> needFn env f state ps extra)"
proof (induction fs)
  case Nil
  show ?case by simp
next
  case (Cons f fs)
  show ?case
  proof (cases "needFn env f state ps extra")
    case (Inl e)
    then show ?thesis by (simp add: resolvesFalsy_def)
  next
    case (Inr b)
    then show ?thesis using Cons.IH by (cases b) (simp_all add: resolvesFalsy_def)
  qed
qed

lemma authorizeLoop_string_provided:
  assumes "\<forall>f. FunctionNeed f \<in> set pre \<longrightarrow> (\<exists>b. needFn env f state ps extra = Inr b)"
    and "StringNeed s \<in> set ps"
  shows "snd (authorizeLoop env state (pre @ StringNeed s # post) ps extra) = Inr True"
  using assms
proof (induction pre)
  case Nil
  then show ?case by (simp add: indexOf_nonneg_iff)
next
  case (Cons r pre)
  then have IH: "snd (authorizeLoop env state (pre @ StringNeed s # post) ps extra) = Inr True"
    by simp
  show ?case
  proof (cases r)
    case (StringNeed t)
    then show ?thesis using IH by simp
  next
    case (FunctionNeed f)
    then obtain b where "needFn env f state ps extra = Inr b"
      using Cons.prems(1) by auto
    then show ?thesis using IH FunctionNeed by (cases b) (simp_all add: split_def)
  next
    case (ObjectNeed v)
    then show ?thesis using IH by simp
  qed
qed

lemma authorizeLoop_no_provided:
  "authorizeLoop env state rs [] extra
     = authorizeLoop env state (filter isFunctionNeed rs) [] extra"
proof (induction rs)
  case Nil
  show ?case by simp
next
  case (Cons r rs)
  then show ?case by (cases r) (simp_all split: sum.splits)
qed

text \<open>
  The loop returns true only when one of the required needs is satisfied; on string
  needs alone, and whenever every function need of the list resolves, it returns
  whether one is.
\<close>

lemma authorizeLoop_true_only_if:
  assumes "snd (authorizeLoop env state rs ps extra) = Inr True"
  shows "(\<exists>t. StringNeed t \<in> set rs \<and> StringNeed t \<in> set ps)
    \<or> (\<exists>f. FunctionNeed f \<in> set rs \<and> resolvesTruthy env state ps extra f)
    \<or> (\<exists>r v. ObjectNeed r \<in> set rs \<and> ObjectNeed v \<in> set ps \<and> isMatch env v r)"
  using assms
proof (induction rs)
  case Nil
  then show ?case by simp
next
  case (Cons r rs)
  show ?case
  proof (cases r)
    case (StringNeed t)
    show ?thesis
    proof (cases "StringNeed t \<in> set ps")
      case True
      then show ?thesis using StringNeed by auto
    next
      case False
      then have "snd (authorizeLoop env state rs ps extra) = Inr True"
        using Cons.prems StringNeed by (simp add: indexOf_nonneg_iff)
      then show ?thesis using Cons.IH by auto
    qed
  next
    case (FunctionNeed f)
    show ?thesis
    proof (cases "needFn env f state ps extra")
      case (Inl e)
      then show ?thesis using Cons.prems FunctionNeed by simp
    next
      case (Inr b)
      show ?thesis
      proof (cases b)
        case True
        then show ?thesis using Inr FunctionNeed by (auto simp: resolvesTruthy_def)
      next
        case False
        then have "snd (authorizeLoop env state rs ps extra) = Inr True"
          using Cons.prems FunctionNeed Inr by (simp add: split_def Let_def)
        then show ?thesis using Cons.IH by auto
      qed
    qed
  next
    case (ObjectNeed q)
    show ?thesis
    proof (cases "\<exists>v. ObjectNeed v \<in> set ps \<and> isMatch env v q")
      case True
      then show ?thesis using ObjectNeed by auto
    next
      case False
      then have "snd (authorizeLoop env state rs ps extra) = Inr True"
        using Cons.prems ObjectNeed by (auto simp: list_ex_objectCandidate split: if_splits)
      then show ?thesis using Cons.IH by auto
    qed
  qed
qed

lemma authorizeLoop_strings:
  "authorizeLoop env state (map StringNeed ss) ps extra
     = ([], Inr (\<exists>t \<in> set ss. StringNeed t \<in> set ps))"
  by (induction ss) (simp_all add: indexOf_nonneg_iff)

lemma authorizeLoop_resolving:
  assumes "\<forall>f. FunctionNeed f \<in> set rs \<longrightarrow> (\<exists>b. needFn env f state ps extra = Inr b)"
  shows "snd (authorizeLoop env state rs ps extra)
    = Inr ((\<exists>t. StringNeed t \<in> set rs \<and> StringNeed t \<in> set ps)
        \<or> (\<exists>f. FunctionNeed f \<in> set rs \<and> resolvesTruthy env state ps extra f)
        \<or> (\<exists>r v. ObjectNeed r \<in> set rs \<and> ObjectNeed v \<in> set ps \<and> isMatch env v r))"
  using assms
proof (induction rs)
  case Nil
  show ?case by simp
next
  case (Cons r rs)
  then have IH: "snd (authorizeLoop env state rs ps extra)
    = Inr ((\<exists>t. StringNeed t \<in> set rs \<and> StringNeed t \<in> set ps)
        \<or> (\<exists>f. FunctionNeed f \<in> set rs \<and> resolvesTruthy env state ps extra f)
        \<or> (\<exists>r v. ObjectNeed r \<in> set rs \<and> ObjectNeed v \<in> set ps \<and> isMatch env v r))"
    by simp
  show ?case
  proof (cases r)
    case (StringNeed t)
    then show ?thesis using IH by (auto simp: indexOf_nonneg_iff)
  next
    case (FunctionNeed f)
    then obtain b where b: "needFn env f state ps extra = Inr b"
      using Cons.prems by auto
    show ?thesis
    proof (cases b)
      case True
      then show ?thesis using b FunctionNeed by (auto simp: resolvesTruthy_def)
    next
      case False
      then show ?thesis
        using b FunctionNeed IH by (auto simp: resolvesTruthy_def split_def Let_def)
    qed
  next
    case (ObjectNeed q)
    then show ?thesis using IH by (auto simp: list_ex_objectCandidate)
  qed
qed

text \<open>
  On function needs alone the loop returns true iff some need resolves truthy and
  every need before it resolves falsy.
\<close>

lemma authorizeLoop_functions_true_iff:
  "(snd (authorizeLoop env state (map FunctionNeed fs) ps extra) = Inr True)
     = (\<exists>pre f post. fs = pre @ f # post \<and> list_all (resolvesFalsy env state ps extra) pre
          \<and> resolvesTruthy env state ps extra f)"
proof -
  let ?falsy = "resolvesFalsy env state ps extra"
  let ?truthy = "resolvesTruthy env state ps extra"
  have excl: "?falsy g \<Longrightarrow> \<not> ?truthy g" for g
    by (simp add: resolvesFalsy_def resolvesTruthy_def)
  have eq: "snd (authorizeLoop env state (map FunctionNeed fs) ps extra)
      = (case dropWhile ?falsy fs of [] \<Rightarrow> Inr False | f # rest \<Rightarrow> needFn env f state ps extra)"
    by (simp add: authorizeLoop_functions)
  show ?thesis
  proof
    assume t: "snd (authorizeLoop env state (map FunctionNeed fs) ps extra) = Inr True"
    show "\<exists>pre f post. fs = pre @ f # post \<and> list_all ?falsy pre \<and> ?truthy f"
    proof (cases "dropWhile ?falsy fs")
      case Nil
      then show ?thesis using t eq by (simp del: dropWhile_eq_Nil_conv)
    next
      case (Cons g rest)
      then have "?truthy g" using t eq by (simp add: resolvesTruthy_def)
      moreover have "fs = takeWhile ?falsy fs @ g # rest"
        using Cons takeWhile_dropWhile_id [of ?falsy fs] by simp
      moreover have "list_all ?falsy (takeWhile ?falsy fs)"
        by (auto simp: list_all_iff dest: set_takeWhileD)
      ultimately show ?thesis by blast
    qed
  next
    assume "\<exists>pre f post. fs = pre @ f # post \<and> list_all ?falsy pre \<and> ?truthy f"
    then obtain pre f post where h: "fs = pre @ f # post" "list_all ?falsy pre" "?truthy f"
      by blast
    have nf: "\<not> ?falsy f" using h excl by auto
    have all: "\<forall>x \<in> set pre. ?falsy x" using h by (simp add: list_all_iff)
    have "dropWhile ?falsy fs = f # post"
      using h nf all by (simp add: dropWhile_append2)
    then show "snd (authorizeLoop env state (map FunctionNeed fs) ps extra) = Inr True"
      using h eq by (simp add: resolvesTruthy_def)
  qed
qed

text \<open>
  C4. For every state, provided-needs list and extra context, \<^verbatim>\<open>authorize\<close> with an
  empty list of required needs returns false, and calls no function need.
\<close>

theorem authorize_empty_required:
  "authorize env state (Some []) provided extra = ([], Inr False)"
  by (simp add: authorize_def)

text \<open>
  C5, as stated, fails: the required list \<^verbatim>\<open>["admin", "editor"]\<close> contains the string
  need \<^verbatim>\<open>"admin"\<close>, and \<^verbatim>\<open>authorize\<close> returns true on the provided list
  \<^verbatim>\<open>["editor"]\<close>, in which \<^verbatim>\<open>"admin"\<close> does not appear: another required need
  is satisfied.
\<close>

theorem authorize_string_counterexample:
  "StringNeed ''admin'' \<in> set [StringNeed ''admin'', StringNeed ''editor'' :: jvalue need]
   \<and> authorize exampleEnv guest (Some [StringNeed ''admin'', StringNeed ''editor''])
        (Some [StringNeed ''editor'']) () = ([], Inr True)
   \<and> StringNeed ''admin'' \<notin> set [StringNeed ''editor'' :: jvalue need]"
  by (simp add: authorize_def)

text \<open>
  C5, amended. For every required list that contains the string need \<open>s\<close>: if \<open>s\<close>
  appears verbatim in the provided needs and the function needs listed before \<open>s\<close>
  resolve (none rejects), \<^verbatim>\<open>authorize\<close> returns true. Conversely, for every required
  list, \<^verbatim>\<open>authorize\<close> returns true only if some required string appears verbatim in
  the provided needs, some required function need resolves truthy, or some required
  object need is matched by a provided object; when every function need of the list
  resolves, it returns true iff one of these holds. So on a list of string needs only
  it returns true iff one of its strings appears verbatim in the provided needs, and
  when \<open>s\<close> is the only required need, iff \<open>s\<close> appears verbatim, no function need
  being called. Required \<^verbatim>\<open>["admin"]\<close> with provided \<^verbatim>\<open>[]\<close> gives false, and with
  provided \<^verbatim>\<open>["admin", "editor"]\<close> gives true.
\<close>

theorem authorize_string_need:
  "((snd (authorize env state (Some [StringNeed s]) provided extra) = Inr True)
      = (StringNeed s \<in> set (orEmpty provided)))
   \<and> fst (authorize env state (Some [StringNeed s]) provided extra) = []
   \<and> ((\<forall>f. FunctionNeed f \<in> set pre \<longrightarrow>
          (\<exists>b. needFn env f state (orEmpty provided) extra = Inr b))
        \<and> StringNeed s \<in> set (orEmpty provided)
      \<longrightarrow> snd (authorize env state (Some (pre @ StringNeed s # post)) provided extra) = Inr True)
   \<and> authorize env state (Some [StringNeed ''admin'']) (Some []) extra = ([], Inr False)
   \<and> authorize env state (Some [StringNeed ''admin''])
        (Some [StringNeed ''admin'', StringNeed ''editor'']) extra = ([], Inr True)
   \<and> (snd (authorize env state (Some rs) provided extra) = Inr True
      \<longrightarrow> (\<exists>t. StringNeed t \<in> set rs \<and> StringNeed t \<in> set (orEmpty provided))
          \<or> (\<exists>f. FunctionNeed f \<in> set rs \<and> resolvesTruthy env state (orEmpty provided) extra f)
          \<or> (\<exists>r v. ObjectNeed r \<in> set rs \<and> ObjectNeed v \<in> set (orEmpty provided)
                \<and> isMatch env v r))
   \<and> authorize env state (Some (map StringNeed ss)) provided extra
       = ([], Inr (\<exists>t \<in> set ss. StringNeed t \<in> set (orEmpty provided)))
   \<and> ((\<forall>f. FunctionNeed f \<in> set rs \<longrightarrow>
          (\<exists>b. needFn env f state (orEmpty provided) extra = Inr b))
      \<longrightarrow> snd (authorize env state (Some rs) provided extra)
          = Inr ((\<exists>t. StringNeed t \<in> set rs \<and> StringNeed t \<in> set (orEmpty provided))
              \<or> (\<exists>f. FunctionNeed f \<in> set rs \<and> resolvesTruthy env state (orEmpty provided) extra f)
              \<or> (\<exists>r v. ObjectNeed r \<in> set rs \<and> ObjectNeed v \<in> set (orEmpty provided)
                    \<and> isMatch env v r)))"
proof -
  have one: "(snd (authorize env state (Some [StringNeed s]) provided extra) = Inr True)
      = (StringNeed s \<in> set (orEmpty provided))"
    by (simp add: authorize_def indexOf_nonneg_iff)
  have tr: "fst (authorize env state (Some [StringNeed s]) provided extra) = []"
    by (simp add: authorize_def)
  have gen: "(\<forall>f. FunctionNeed f \<in> set pre \<longrightarrow>
          (\<exists>b. needFn env f state (orEmpty provided) extra = Inr b))
        \<and> StringNeed s \<in> set (orEmpty provided)
      \<longrightarrow> snd (authorize env state (Some (pre @ StringNeed s # post)) provided extra) = Inr True"
    using authorizeLoop_string_provided [of pre env state "orEmpty provided" extra s post]
    by (simp add: authorize_def)
  have ex1: "authorize env state (Some [StringNeed ''admin'']) (Some []) extra = ([], Inr False)"
    by (simp add: authorize_def)
  have ex2: "authorize env state (Some [StringNeed ''admin''])
        (Some [StringNeed ''admin'', StringNeed ''editor'']) extra = ([], Inr True)"
    by (simp add: authorize_def)
  have onlyif: "snd (authorize env state (Some rs) provided extra) = Inr True
      \<longrightarrow> (\<exists>t. StringNeed t \<in> set rs \<and> StringNeed t \<in> set (orEmpty provided))
          \<or> (\<exists>f. FunctionNeed f \<in> set rs \<and> resolvesTruthy env state (orEmpty provided) extra f)
          \<or> (\<exists>r v. ObjectNeed r \<in> set rs \<and> ObjectNeed v \<in> set (orEmpty provided)
                \<and> isMatch env v r)"
    using authorizeLoop_true_only_if [of env state rs "orEmpty provided" extra]
    by (simp add: authorize_def)
  have strs: "authorize env state (Some (map StringNeed ss)) provided extra
       = ([], Inr (\<exists>t \<in> set ss. StringNeed t \<in> set (orEmpty provided)))"
    by (simp add: authorize_def authorizeLoop_strings)
  have res: "(\<forall>f. FunctionNeed f \<in> set rs \<longrightarrow>
          (\<exists>b. needFn env f state (orEmpty provided) extra = Inr b))
      \<longrightarrow> snd (authorize env state (Some rs) provided extra)
          = Inr ((\<exists>t. StringNeed t \<in> set rs \<and> StringNeed t \<in> set (orEmpty provided))
              \<or> (\<exists>f. FunctionNeed f \<in> set rs \<and> resolvesTruthy env state (orEmpty provided) extra f)
              \<or> (\<exists>r v. ObjectNeed r \<in> set rs \<and> ObjectNeed v \<in> set (orEmpty provided)
                    \<and> isMatch env v r))"
    using authorizeLoop_resolving [of rs env state "orEmpty provided" extra]
    by (simp add: authorize_def)
  show ?thesis by (intro conjI one tr gen ex1 ex2 onlyif strs res)
qed

text \<open>
  The amended C5 at concrete lists: \<^verbatim>\<open>"admin"\<close> provided, after a falsy function need
  and an object need and before a rejecting function need, gives true; required
  \<^verbatim>\<open>["admin", yes]\<close> with provided \<^verbatim>\<open>["editor"]\<close> gives true, and a required need
  is satisfied (the function need); required \<^verbatim>\<open>["admin", no]\<close> with provided
  \<^verbatim>\<open>["editor"]\<close> gives false.
\<close>

theorem authorize_string_need_witness:
  "snd (authorize exampleEnv guest
      (Some ([FunctionNeed ''no'', ObjectNeed JNull] @ StringNeed ''admin'' # [FunctionNeed ''fails'']))
      (Some [StringNeed ''editor'', StringNeed ''admin'']) ()) = Inr True
   \<and> snd (authorize exampleEnv guest (Some [StringNeed ''admin'', FunctionNeed ''yes''])
        (Some [StringNeed ''editor'']) ()) = Inr True
   \<and> ((\<exists>t. StringNeed t \<in> set [StringNeed ''admin'', FunctionNeed ''yes'' :: jvalue need]
          \<and> StringNeed t \<in> set (orEmpty (Some [StringNeed ''editor'' :: jvalue need])))
      \<or> (\<exists>f. FunctionNeed f \<in> set [StringNeed ''admin'', FunctionNeed ''yes'' :: jvalue need]
          \<and> resolvesTruthy exampleEnv guest (orEmpty (Some [StringNeed ''editor''])) () f)
      \<or> (\<exists>r v. ObjectNeed r \<in> set [StringNeed ''admin'', FunctionNeed ''yes'' :: jvalue need]
          \<and> ObjectNeed v \<in> set (orEmpty (Some [StringNeed ''editor'' :: jvalue need]))
          \<and> isMatch exampleEnv v r))
   \<and> snd (authorize exampleEnv guest (Some [StringNeed ''admin'', FunctionNeed ''no''])
        (Some [StringNeed ''editor'']) ()) = Inr False"
proof -
  let ?provided = "Some [StringNeed ''editor'', StringNeed ''admin'' :: jvalue need]"
  let ?p2 = "Some [StringNeed ''editor'' :: jvalue need]"
  let ?rs = "[StringNeed ''admin'', FunctionNeed ''yes'' :: jvalue need]"
  let ?rs3 = "[StringNeed ''admin'', FunctionNeed ''no'' :: jvalue need]"
  have h: "(\<forall>f. FunctionNeed f \<in> set [FunctionNeed ''no'', ObjectNeed JNull] \<longrightarrow>
          (\<exists>b. needFn exampleEnv f guest (orEmpty ?provided) () = Inr b))
        \<and> StringNeed ''admin'' \<in> set (orEmpty ?provided)"
    by (auto simp: exampleEnv_def)
  note t = authorize_string_need [of exampleEnv guest "''admin''" ?provided "()"
      "[FunctionNeed ''no'', ObjectNeed JNull]" "[FunctionNeed ''fails'']"]
  have c1: "snd (authorize exampleEnv guest
      (Some ([FunctionNeed ''no'', ObjectNeed JNull] @ StringNeed ''admin'' # [FunctionNeed ''fails'']))
      ?provided ()) = Inr True"
    by (rule t [THEN conjunct2, THEN conjunct2, THEN conjunct1, THEN mp, OF h])
  have h2: "snd (authorize exampleEnv guest (Some ?rs) ?p2 ()) = Inr True"
    by (simp add: authorize_def exampleEnv_def)
  note t2 = authorize_string_need [of exampleEnv guest _ ?p2 "()" _ _ ?rs]
  have c2: "(\<exists>t. StringNeed t \<in> set ?rs \<and> StringNeed t \<in> set (orEmpty ?p2))
      \<or> (\<exists>f. FunctionNeed f \<in> set ?rs \<and> resolvesTruthy exampleEnv guest (orEmpty ?p2) () f)
      \<or> (\<exists>r v. ObjectNeed r \<in> set ?rs \<and> ObjectNeed v \<in> set (orEmpty ?p2) \<and> isMatch exampleEnv v r)"
    by (rule t2 [THEN conjunct2, THEN conjunct2, THEN conjunct2, THEN conjunct2, THEN conjunct2,
          THEN conjunct1, THEN mp, OF h2])
  have h3: "\<forall>f. FunctionNeed f \<in> set ?rs3 \<longrightarrow>
      (\<exists>b. needFn exampleEnv f guest (orEmpty ?p2) () = Inr b)"
    by (auto simp: exampleEnv_def)
  note t3 = authorize_string_need [of exampleEnv guest _ ?p2 "()" _ _ ?rs3]
  have c3: "snd (authorize exampleEnv guest (Some ?rs3) ?p2 ())
      = Inr ((\<exists>t. StringNeed t \<in> set ?rs3 \<and> StringNeed t \<in> set (orEmpty ?p2))
          \<or> (\<exists>f. FunctionNeed f \<in> set ?rs3 \<and> resolvesTruthy exampleEnv guest (orEmpty ?p2) () f)
          \<or> (\<exists>r v. ObjectNeed r \<in> set ?rs3 \<and> ObjectNeed v \<in> set (orEmpty ?p2)
                \<and> isMatch exampleEnv v r))"
    by (rule t3 [THEN conjunct2, THEN conjunct2, THEN conjunct2, THEN conjunct2, THEN conjunct2,
          THEN conjunct2, THEN conjunct2, THEN mp, OF h3])
  have v3: "((\<exists>t. StringNeed t \<in> set ?rs3 \<and> StringNeed t \<in> set (orEmpty ?p2))
          \<or> (\<exists>f. FunctionNeed f \<in> set ?rs3 \<and> resolvesTruthy exampleEnv guest (orEmpty ?p2) () f)
          \<or> (\<exists>r v. ObjectNeed r \<in> set ?rs3 \<and> ObjectNeed v \<in> set (orEmpty ?p2)
                \<and> isMatch exampleEnv v r)) = False"
    by (auto simp: exampleEnv_def resolvesTruthy_def)
  have c3': "snd (authorize exampleEnv guest (Some ?rs3) ?p2 ()) = Inr False"
    using c3 v3 by simp
  show ?thesis by (rule conjI [OF c1 conjI [OF h2 conjI [OF c2 c3']]])
qed

text \<open>
  C6, as stated, fails: on the required list \<^verbatim>\<open>[fails, yes]\<close> the function need
  \<^verbatim>\<open>yes\<close> resolves truthy when invoked with the state, the provided needs and the
  extra context, and \<^verbatim>\<open>authorize\<close> does not return true: the need \<^verbatim>\<open>fails\<close>, listed
  before it, rejects, and \<^verbatim>\<open>authorize\<close> rejects with it.
\<close>

theorem authorize_function_needs_counterexample:
  "authorize exampleEnv guest (Some (map FunctionNeed [''fails'', ''yes''])) None ()
     = ([''fails''], Inl ''failed'')
   \<and> resolvesTruthy exampleEnv guest (orEmpty None) () ''yes''
   \<and> snd (authorize exampleEnv guest (Some (map FunctionNeed [''fails'', ''yes''])) None ())
       \<noteq> Inr True"
  by (simp add: authorize_def exampleEnv_def resolvesTruthy_def)

text \<open>
  C6, amended. On a required list of function needs only, \<^verbatim>\<open>authorize\<close> calls the
  needs in the order of the list, up to and including the first one that does not
  resolve falsy, and no need after it. It returns true iff some need of the list
  resolves truthy and every need listed before it resolves falsy (none rejects); when
  every need of the list resolves, that is iff at least one need of the list resolves
  truthy. It returns true iff one of the needs it called resolved truthy. The needs
  after the first truthy one are not called. A need that rejects after needs that
  resolve falsy is the last one called, and \<^verbatim>\<open>authorize\<close> rejects with it.
\<close>

theorem authorize_function_needs:
  "fst (authorize env state (Some (map FunctionNeed fs)) provided extra)
     = takeWhile (resolvesFalsy env state (orEmpty provided) extra) fs
         @ take 1 (dropWhile (resolvesFalsy env state (orEmpty provided) extra) fs)
   \<and> ((snd (authorize env state (Some (map FunctionNeed fs)) provided extra) = Inr True)
        = (\<exists>f \<in> set (fst (authorize env state (Some (map FunctionNeed fs)) provided extra)).
             resolvesTruthy env state (orEmpty provided) extra f))
   \<and> ((\<forall>f \<in> set fs. \<exists>b. needFn env f state (orEmpty provided) extra = Inr b)
        \<longrightarrow> snd (authorize env state (Some (map FunctionNeed fs)) provided extra)
              = Inr (\<exists>f \<in> set fs. resolvesTruthy env state (orEmpty provided) extra f))
   \<and> (fs = pre @ f # post \<and> list_all (resolvesFalsy env state (orEmpty provided) extra) pre
        \<and> resolvesTruthy env state (orEmpty provided) extra f
        \<longrightarrow> authorize env state (Some (map FunctionNeed fs)) provided extra = (pre @ [f], Inr True))
   \<and> ((snd (authorize env state (Some (map FunctionNeed fs)) provided extra) = Inr True)
        = (\<exists>pre' f' post'. fs = pre' @ f' # post'
             \<and> list_all (resolvesFalsy env state (orEmpty provided) extra) pre'
             \<and> resolvesTruthy env state (orEmpty provided) extra f'))
   \<and> (fs = pre @ f # post \<and> list_all (resolvesFalsy env state (orEmpty provided) extra) pre
        \<and> needFn env f state (orEmpty provided) extra = Inl e
        \<longrightarrow> authorize env state (Some (map FunctionNeed fs)) provided extra = (pre @ [f], Inl e))"
proof -
  let ?ps = "orEmpty provided"
  let ?falsy = "resolvesFalsy env state ?ps extra"
  let ?truthy = "resolvesTruthy env state ?ps extra"
  let ?a = "authorize env state (Some (map FunctionNeed fs)) provided extra"
  have a: "?a = (takeWhile ?falsy fs @ take 1 (dropWhile ?falsy fs),
      case dropWhile ?falsy fs of [] \<Rightarrow> Inr False | f # rest \<Rightarrow> needFn env f state ?ps extra)"
    by (simp add: authorize_def authorizeLoop_functions)
  have excl: "?falsy g \<Longrightarrow> \<not> ?truthy g" for g
    by (simp add: resolvesFalsy_def resolvesTruthy_def)
  have c1: "fst ?a = takeWhile ?falsy fs @ take 1 (dropWhile ?falsy fs)"
    using a by simp
  have c2: "(snd ?a = Inr True) = (\<exists>f \<in> set (fst ?a). ?truthy f)"
  proof (cases "dropWhile ?falsy fs")
    case Nil
    then have "\<forall>g \<in> set fs. ?falsy g" by simp
    then show ?thesis using a Nil excl by (auto dest: set_takeWhileD)
  next
    case (Cons g rest)
    have "\<forall>h \<in> set (takeWhile ?falsy fs). \<not> ?truthy h"
      using excl by (auto dest: set_takeWhileD)
    then show ?thesis using a Cons by (auto simp: resolvesTruthy_def)
  qed
  have c3: "(\<forall>f \<in> set fs. \<exists>b. needFn env f state ?ps extra = Inr b)
      \<longrightarrow> snd ?a = Inr (\<exists>f \<in> set fs. ?truthy f)"
  proof
    assume res: "\<forall>f \<in> set fs. \<exists>b. needFn env f state ?ps extra = Inr b"
    show "snd ?a = Inr (\<exists>f \<in> set fs. ?truthy f)"
    proof (cases "dropWhile ?falsy fs")
      case Nil
      then have "\<forall>g \<in> set fs. ?falsy g" by simp
      then show ?thesis using a Nil excl by auto
    next
      case (Cons g rest)
      then have g: "g \<in> set fs" and ng: "\<not> ?falsy g"
        using set_dropWhileD [of g ?falsy fs] hd_dropWhile [of ?falsy fs] by auto
      then obtain b where b: "needFn env g state ?ps extra = Inr b" using res by auto
      then have "b" using ng by (cases b) (simp_all add: resolvesFalsy_def)
      then show ?thesis using a Cons b g by (auto simp: resolvesTruthy_def)
    qed
  qed
  have c4: "fs = pre @ f # post \<and> list_all ?falsy pre \<and> ?truthy f \<longrightarrow> ?a = (pre @ [f], Inr True)"
  proof
    assume h: "fs = pre @ f # post \<and> list_all ?falsy pre \<and> ?truthy f"
    then have nf: "\<not> ?falsy f" using excl by auto
    have all: "\<forall>x \<in> set pre. ?falsy x" using h by (simp add: list_all_iff)
    have tw: "takeWhile ?falsy fs = pre"
      using h nf all by (simp add: takeWhile_append2)
    have dw: "dropWhile ?falsy fs = f # post"
      using h nf all by (simp add: dropWhile_append2)
    show "?a = (pre @ [f], Inr True)"
      using a tw dw h by (simp add: resolvesTruthy_def)
  qed
  have c5: "(snd ?a = Inr True)
      = (\<exists>pre' f' post'. fs = pre' @ f' # post' \<and> list_all ?falsy pre' \<and> ?truthy f')"
    using authorizeLoop_functions_true_iff [of env state fs ?ps extra]
    by (simp add: authorize_def)
  have c6: "fs = pre @ f # post \<and> list_all ?falsy pre \<and> needFn env f state ?ps extra = Inl e
      \<longrightarrow> ?a = (pre @ [f], Inl e)"
  proof
    assume h: "fs = pre @ f # post \<and> list_all ?falsy pre \<and> needFn env f state ?ps extra = Inl e"
    then have nf: "\<not> ?falsy f" by (simp add: resolvesFalsy_def)
    have all: "\<forall>x \<in> set pre. ?falsy x" using h by (simp add: list_all_iff)
    have tw: "takeWhile ?falsy fs = pre"
      using h nf all by (simp add: takeWhile_append2)
    have dw: "dropWhile ?falsy fs = f # post"
      using h nf all by (simp add: dropWhile_append2)
    show "?a = (pre @ [f], Inl e)"
      using a tw dw h by simp
  qed
  show ?thesis by (intro conjI c1 c2 c3 c4 c5 c6)
qed

text \<open>
  The amended C6 at the needs \<^verbatim>\<open>no, yes, fails\<close>: the first two are called, the
  third is not, and the result is true; at \<^verbatim>\<open>no, no\<close> the result is false; at
  \<^verbatim>\<open>no, fails, yes\<close> the first two are called and the call rejects.
\<close>

theorem authorize_function_needs_witness:
  "authorize exampleEnv guest (Some (map FunctionNeed [''no'', ''yes'', ''fails''])) None ()
     = ([''no'', ''yes''], Inr True)
   \<and> snd (authorize exampleEnv guest (Some (map FunctionNeed [''no'', ''no''])) None ()) = Inr False
   \<and> authorize exampleEnv guest (Some (map FunctionNeed [''no'', ''fails'', ''yes''])) None ()
     = ([''no'', ''fails''], Inl ''failed'')"
proof -
  have h1: "[''no'', ''yes'', ''fails''] = [''no''] @ ''yes'' # [''fails'']
      \<and> list_all (resolvesFalsy exampleEnv guest (orEmpty None) ()) [''no'']
      \<and> resolvesTruthy exampleEnv guest (orEmpty None) () ''yes''"
    by (simp add: exampleEnv_def resolvesFalsy_def resolvesTruthy_def)
  note t1 = authorize_function_needs [of exampleEnv guest "[''no'', ''yes'', ''fails'']" None "()"
      "[''no'']" "''yes''" "[''fails'']"]
  have c1: "authorize exampleEnv guest (Some (map FunctionNeed [''no'', ''yes'', ''fails''])) None ()
      = ([''no''] @ [''yes''], Inr True)"
    by (rule t1 [THEN conjunct2, THEN conjunct2, THEN conjunct2, THEN conjunct1, THEN mp, OF h1])
  have h2: "\<forall>f \<in> set [''no'', ''no'']. \<exists>b. needFn exampleEnv f guest (orEmpty None) () = Inr b"
    by (auto simp: exampleEnv_def)
  note t2 = authorize_function_needs [of exampleEnv guest "[''no'', ''no'']" None "()"]
  have c2: "snd (authorize exampleEnv guest (Some (map FunctionNeed [''no'', ''no''])) None ())
      = Inr (\<exists>f \<in> set [''no'', ''no'']. resolvesTruthy exampleEnv guest (orEmpty None) () f)"
    by (rule t2 [THEN conjunct2, THEN conjunct2, THEN conjunct1, THEN mp, OF h2])
  have c2': "(\<exists>f \<in> set [''no'', ''no'']. resolvesTruthy exampleEnv guest (orEmpty None) () f) = False"
    by (simp add: exampleEnv_def resolvesTruthy_def)
  have h3: "[''no'', ''fails'', ''yes''] = [''no''] @ ''fails'' # [''yes'']
      \<and> list_all (resolvesFalsy exampleEnv guest (orEmpty None) ()) [''no'']
      \<and> needFn exampleEnv ''fails'' guest (orEmpty None) () = Inl ''failed''"
    by (simp add: exampleEnv_def resolvesFalsy_def)
  note t3 = authorize_function_needs [of exampleEnv guest "[''no'', ''fails'', ''yes'']" None "()"
      "[''no'']" "''fails''" "[''yes'']" "''failed''"]
  have c3: "authorize exampleEnv guest (Some (map FunctionNeed [''no'', ''fails'', ''yes''])) None ()
      = ([''no''] @ [''fails''], Inl ''failed'')"
    by (rule t3 [THEN conjunct2, THEN conjunct2, THEN conjunct2, THEN conjunct2, THEN conjunct2,
          THEN mp, OF h3])
  show ?thesis using c1 c2 c2' c3 by simp
qed

text \<open>
  C7. A single required object need is satisfied iff some provided need that is an
  object (neither a string nor a function) matches it under \<^verbatim>\<open>isMatch\<close>. Provided
  strings and functions are no candidates, even under an \<^verbatim>\<open>isMatch\<close> that accepts
  everything. With the partial deep match for \<^verbatim>\<open>isMatch\<close>, required \<^verbatim>\<open>{a: 1}\<close>
  matches provided \<^verbatim>\<open>[{a: 1, b: 2}]\<close> and does not match provided \<^verbatim>\<open>[{a: 2}]\<close>.
\<close>

theorem authorize_object_need:
  "authorize env state (Some [ObjectNeed r]) provided extra
     = ([], Inr (\<exists>v. ObjectNeed v \<in> set (orEmpty provided) \<and> isMatch env v r))
   \<and> authorize (env\<lparr>isMatch := \<lambda>n source. True\<rparr>) state (Some [ObjectNeed r])
        (Some (map StringNeed ss @ map FunctionNeed fs)) extra = ([], Inr False)
   \<and> authorize (env'\<lparr>isMatch := isMatchModel\<rparr>) state' (Some [ObjectNeed (JObject [(''a'', JNumber 1)])])
        (Some [ObjectNeed (JObject [(''a'', JNumber 1), (''b'', JNumber 2)])]) extra' = ([], Inr True)
   \<and> authorize (env'\<lparr>isMatch := isMatchModel\<rparr>) state' (Some [ObjectNeed (JObject [(''a'', JNumber 1)])])
        (Some [ObjectNeed (JObject [(''a'', JNumber 2)])]) extra' = ([], Inr False)"
proof -
  have gen: "authorize e st (Some [ObjectNeed q]) ps x
     = ([], Inr (\<exists>v. ObjectNeed v \<in> set (orEmpty ps) \<and> isMatch e v q))" for e st q ps x
    by (simp add: authorize_def list_ex_objectCandidate)
  have c2: "authorize (env\<lparr>isMatch := \<lambda>n source. True\<rparr>) state (Some [ObjectNeed r])
        (Some (map StringNeed ss @ map FunctionNeed fs)) extra = ([], Inr False)"
    by (auto simp: gen)
  have c3: "authorize (env'\<lparr>isMatch := isMatchModel\<rparr>) state' (Some [ObjectNeed (JObject [(''a'', JNumber 1)])])
        (Some [ObjectNeed (JObject [(''a'', JNumber 1), (''b'', JNumber 2)])]) extra' = ([], Inr True)"
    by (simp add: gen)
  have c4: "authorize (env'\<lparr>isMatch := isMatchModel\<rparr>) state' (Some [ObjectNeed (JObject [(''a'', JNumber 1)])])
        (Some [ObjectNeed (JObject [(''a'', JNumber 2)])]) extra' = ([], Inr False)"
    by (simp add: gen)
  show ?thesis by (intro conjI gen c2 c3 c4)
qed

text \<open>
  C10. A null or undefined list is read as the empty list, and no such list makes
  \<^verbatim>\<open>authorize\<close> reject: with a null required list the result is false; a null
  provided list gives what the empty provided list gives; with a null provided list a
  string need and an object need are not satisfied, so that the result is the one of
  the function needs of the required list alone.
\<close>

theorem authorize_null_lists:
  "authorize env state None provided extra = ([], Inr False)
   \<and> authorize env state required None extra = authorize env state required (Some []) extra
   \<and> authorize env state (Some [StringNeed s]) None extra = ([], Inr False)
   \<and> authorize env state (Some [ObjectNeed r]) None extra = ([], Inr False)
   \<and> authorize env state (Some rs) None extra
       = authorize env state (Some (filter isFunctionNeed rs)) None extra"
  using authorizeLoop_no_provided [of env state rs extra]
  by (simp add: authorize_def)

section \<open>Facts about the shared state\<close>

lemma settle_keeps:
  "promises (settle p v w) = promises w"
  "events (settle p v w) = events w"
  "fetches (settle p v w) = fetches w"
  "loginState (settle p v w) = loginState w"
  "options (settle p v w) = options w"
  by (simp_all add: settle_def split: option.splits)

lemma check_keeps:
  "promiseStates (snd (check env b w)) = promiseStates w"
  "events (snd (check env b w)) = events w"
  "promises (snd (check env b w)) = promises w"
  by (simp_all add: check_def Let_def split: sum.splits option.splits)

lemma onmessage_keeps:
  "promises (onmessage msg w) = []"
  "promiseStates (onmessage msg w) = promiseStates w"
  "events (onmessage msg w) = events w"
  "loginState (onmessage msg w) = loginState w"
  "fetches (onmessage msg w) = fetches w"
  by (simp_all add: onmessage_def)

lemma login_promiseStates:
  "promiseStates (snd (login env popup w)) = promiseStates w @ [None]"
  by (simp add: login_def newPromise_def emit_def handleFailedLoginPopup_def Let_def)

lemma showLoginPopup_promiseStates:
  "promiseStates (snd (showLoginPopup extra w)) = promiseStates w @ [None]"
  by (simp add: showLoginPopup_def newPromise_def emit_def Let_def)

lemma invocations_append: "invocations (es @ fs) = invocations es @ invocations fs"
  by (simp add: invocations_def)

lemma login_invocations: "invocations (events (snd (login env popup w))) = invocations (events w)"
  by (simp add: login_def newPromise_def emit_def handleFailedLoginPopup_def Let_def
      invocations_def)

lemma showLoginPopup_invocations:
  "invocations (events (snd (showLoginPopup extra w))) = invocations (events w)"
  by (simp add: showLoginPopup_def newPromise_def emit_def Let_def invocations_def)

lemma then_invocations:
  "invocations (events (handleFailedLoginPopupThen env p ok w)) = invocations (events w)"
  by (simp add: handleFailedLoginPopupThen_def settle_keeps emit_def invocations_def)

lemma start_cases:
  "snd (loginAndAuthorizeStart env required extra w) = snd (check env True w)
   \<or> snd (loginAndAuthorizeStart env required extra w)
       = snd (showLoginPopup extra (snd (check env True w)))"
  by (simp add: loginAndAuthorizeStart_def split_def Let_def split: sum.splits)

lemma list_ex_update_unfulfilled:
  assumes "\<not> fulfilled v" and "p < length xs" and "\<not> fulfilled (xs ! p)"
  shows "list_ex fulfilled (xs[p := v]) = list_ex fulfilled xs"
  using assms
proof (induction xs arbitrary: p)
  case Nil
  then show ?case by simp
next
  case (Cons x xs)
  then show ?case by (cases p) simp_all
qed

lemma then_fulfilled:
  "list_ex fulfilled (promiseStates (handleFailedLoginPopupThen env p ok w))
     = list_ex fulfilled (promiseStates w)"
  by (simp add: handleFailedLoginPopupThen_def settle_def list_ex_update_unfulfilled emit_def
      split: option.splits)

text \<open>
  Whatever is called and whatever arrives, no waiter is ever called and no promise is
  ever resolved: the only function that calls waiters is \<^verbatim>\<open>notify\<close>, and nothing
  calls it.
\<close>

lemma never_fulfilled_never_invoked:
  assumes "reachable env w0 w"
  shows "list_ex fulfilled (promiseStates w) = list_ex fulfilled (promiseStates w0)
    \<and> invocations (events w) = invocations (events w0)"
  using assms
proof (induction rule: reachable.induct)
  case start
  show ?case by simp
next
  case (checked w b)
  then show ?case by (simp add: check_keeps)
next
  case (loginCalled w popup)
  then show ?case by (simp add: login_promiseStates login_invocations)
next
  case (notifierResolved w p ok)
  then show ?case by (simp add: then_fulfilled then_invocations)
next
  case (popupShown w extra)
  then show ?case by (simp add: showLoginPopup_promiseStates showLoginPopup_invocations)
next
  case (authorizeStarted w required extra)
  then show ?case
    using start_cases [of env required extra w]
    by (auto simp: check_keeps showLoginPopup_promiseStates showLoginPopup_invocations)
next
  case (messageArrived w msg)
  then show ?case by (simp add: onmessage_keeps)
qed

section \<open>Facts about the loop declared in the message handler\<close>

lemma invoke_events: "events (snd (invoke env msg p w)) = events w"
proof (cases p)
  case RefreshWaiter
  obtain r w' where c: "check env False w = (r, w')"
    by force
  then have "events w' = events w"
    using check_keeps(2) [of env False w] by simp
  then show ?thesis using RefreshWaiter c by (cases r) simp_all
next
  case (LoginResolver q)
  then show ?thesis by (simp add: settle_keeps)
next
  case (PopupResolver q)
  then show ?thesis by (simp add: settle_keeps)
qed

text \<open>Called on a list of waiters, \<^verbatim>\<open>notify\<close> would call a prefix of it, in its order.\<close>

lemma notify_order:
  "\<exists>n. invocations (events (snd (notify env msg ps w))) = invocations (events w) @ take n ps"
proof (induction ps arbitrary: w)
  case Nil
  show ?case by simp
next
  case (Cons p ps)
  obtain r w' where i: "invoke env msg p (emit [Invoked p] w) = (r, w')"
    by force
  have w': "invocations (events w') = invocations (events w) @ [p]"
    using invoke_events [of env msg p "emit [Invoked p] w"] i
    by (simp add: emit_def invocations_def)
  show ?case
  proof (cases r)
    case (Inl e)
    then have "invocations (events (snd (notify env msg (p # ps) w)))
        = invocations (events w) @ take 1 (p # ps)"
      using i w' by simp
    then show ?thesis by blast
  next
    case (Inr u)
    obtain n where "invocations (events (snd (notify env msg ps w')))
        = invocations (events w') @ take n ps"
      using Cons.IH by blast
    then have "invocations (events (snd (notify env msg (p # ps) w)))
        = invocations (events w) @ take (Suc n) (p # ps)"
      using i w' Inr by simp
    then show ?thesis by blast
  qed
qed

section \<open>Facts about the authorization orchestrator\<close>

text \<open>
  The two parts of \<^verbatim>\<open>loginAndAuthorize\<close>: with a logged-in cached state it returns
  what the matcher gives on that state; with a fetched state that is not logged in it
  is suspended on the promise of \<^verbatim>\<open>showLoginPopup\<close>; once that promise is resolved, it
  returns false when the shared state is not logged in, and otherwise what the matcher
  gives on the state it fetched before the popup.
\<close>

lemma loginAndAuthorizeStart_cached:
  assumes "loggedIn (loginState w)"
  shows "loginAndAuthorizeStart env required extra w
    = (Returned (authorize env (loginState w) required (needsProvided (loginState w)) extra), w)"
  using assms by (simp add: loginAndAuthorizeStart_def check_def)

lemma loginAndAuthorizeStart_suspends:
  assumes "check env True w = (Inr authState, w1)" and "\<not> loggedIn authState"
  shows "loginAndAuthorizeStart env required extra w
    = (Awaiting (fst (showLoginPopup extra w1)) authState, snd (showLoginPopup extra w1))"
  using assms by (simp add: loginAndAuthorizeStart_def split_def Let_def)

lemma loginAndAuthorizeResume_fulfilled:
  assumes "p < length (promiseStates w)" and "fulfilled (promiseStates w ! p)"
  shows "loginAndAuthorizeResume env required extra p authState w
    = Some (if \<not> loggedIn (loginState w) then ([], Inr False)
            else authorize env authState required (needsProvided authState) extra)"
  using assms
  by (cases "promiseStates w ! p" rule: fulfilled.cases)
    (simp_all add: loginAndAuthorizeResume_def)

lemma resume_boolean_needs_fulfilled:
  assumes "loginAndAuthorizeResume env required extra p authState w = Some (tr, Inr b)"
  shows "list_ex fulfilled (promiseStates w)"
proof -
  have "p < length (promiseStates w)" and "fulfilled (promiseStates w ! p)"
    using assms
    by (auto simp: loginAndAuthorizeResume_def split: if_splits option.splits settlement.splits)
  then show ?thesis by (auto simp: list_ex_iff)
qed

text \<open>
  The promise a suspended \<^verbatim>\<open>loginAndAuthorize\<close> waits for is never resolved, so the
  call never returns a boolean.
\<close>

lemma suspended_never_returns_boolean:
  assumes "reachable env w0 w" and "\<not> list_ex fulfilled (promiseStates w0)"
  shows "loginAndAuthorizeResume env required extra p authState w \<noteq> Some (tr, Inr b)"
  using assms never_fulfilled_never_invoked [of env w0 w]
    resume_boolean_needs_fulfilled [of env required extra p authState w tr b]
  by auto

section \<open>The session state store: the claim\<close>

text \<open>
  C8. \<^verbatim>\<open>check(true)\<close> on a cached state that is logged in returns the cached state
  and leaves the world as it is: no request is sent and nothing is assigned.
  \<^verbatim>\<open>check(false)\<close> always sends one request; when the request answers with a
  payload, the payload, or what the transformer makes of it when there is one, is
  assigned to the shared state and returned. The assignment is unconditional: whenever
  \<^verbatim>\<open>check(false)\<close> returns a state, it has assigned the shared state exactly once,
  also when the payload is equal to the state that was there. Whenever \<^verbatim>\<open>check\<close>
  returns a state, that state is the shared state; when it rejects, nothing was
  assigned.
\<close>

theorem check_cache_or_fetch:
  "(loggedIn (loginState w) \<longrightarrow> check env True w = (Inr (loginState w), w))
   \<and> fetches (snd (check env False w)) = fetches w + 1
   \<and> (network env (stateUrl (options w)) (fetches w) = Inr payload
        \<and> loginStateTransformer (options w) = None
      \<longrightarrow> check env False w
            = (Inr payload,
               w\<lparr>loginState := payload, fetches := fetches w + 1, assignments := assignments w + 1\<rparr>))
   \<and> (network env (stateUrl (options w)) (fetches w) = Inr payload
        \<and> loginStateTransformer (options w) = Some transformer \<and> transformer payload = Inr s
      \<longrightarrow> check env False w
            = (Inr s, w\<lparr>loginState := s, fetches := fetches w + 1, assignments := assignments w + 1\<rparr>))
   \<and> (fst (check env b w) = Inr s' \<longrightarrow> loginState (snd (check env b w)) = s')
   \<and> (network env (stateUrl (options w)) (fetches w) = Inr (loginState w)
        \<and> loginStateTransformer (options w) = None
      \<longrightarrow> assignments (snd (check env False w)) = assignments w + 1
          \<and> loginState (snd (check env False w)) = loginState w)
   \<and> (fst (check env False w) = Inr s' \<longrightarrow> assignments (snd (check env False w)) = assignments w + 1)
   \<and> (fst (check env b w) = Inl e \<longrightarrow>
        assignments (snd (check env b w)) = assignments w
        \<and> loginState (snd (check env b w)) = loginState w)"
  by (simp add: check_def Let_def split: sum.splits option.splits)

text \<open>
  C8 at a world whose cached state is a logged-in session: \<^verbatim>\<open>check(true)\<close> changes
  nothing, \<^verbatim>\<open>check(false)\<close> fetches and assigns the answer of the endpoint, with and
  without a transformer; and at a world whose cached state equals the answer of the
  endpoint: \<^verbatim>\<open>check(false)\<close> assigns it all the same.
\<close>

theorem check_cache_or_fetch_witness:
  "check exampleEnv True cachedWorld = (Inr john, cachedWorld)
   \<and> check exampleEnv False cachedWorld
       = (Inr anonymous, cachedWorld\<lparr>loginState := anonymous, fetches := 1, assignments := 1\<rparr>)
   \<and> check exampleEnv False
        (cachedWorld\<lparr>options := defaultOptions\<lparr>loginStateTransformer := Some (\<lambda>d. Inr john)\<rparr>\<rparr>)
       = (Inr john,
          cachedWorld\<lparr>options := defaultOptions\<lparr>loginStateTransformer := Some (\<lambda>d. Inr john)\<rparr>,
            loginState := john, fetches := 1, assignments := 1\<rparr>)
   \<and> loginState anonymousWorld = anonymous
   \<and> assignments anonymousWorld = 0
   \<and> assignments (snd (check exampleEnv False anonymousWorld)) = 1
   \<and> loginState (snd (check exampleEnv False anonymousWorld)) = anonymous"
proof -
  let ?w = "cachedWorld\<lparr>options := defaultOptions\<lparr>loginStateTransformer := Some (\<lambda>d. Inr john)\<rparr>\<rparr>"
  have h1: "loggedIn (loginState cachedWorld)"
    by (simp add: cachedWorld_def john_def)
  have h2: "network exampleEnv (stateUrl (options cachedWorld)) (fetches cachedWorld) = Inr anonymous
      \<and> loginStateTransformer (options cachedWorld) = None"
    by (simp add: cachedWorld_def initialWorld_def defaultOptions_def exampleEnv_def)
  have h3: "network exampleEnv (stateUrl (options ?w)) (fetches ?w) = Inr anonymous
      \<and> loginStateTransformer (options ?w) = Some (\<lambda>d. Inr john) \<and> (\<lambda>d. Inr john) anonymous = Inr john"
    by (simp add: cachedWorld_def initialWorld_def defaultOptions_def exampleEnv_def)
  have h4: "network exampleEnv (stateUrl (options anonymousWorld)) (fetches anonymousWorld)
        = Inr (loginState anonymousWorld)
      \<and> loginStateTransformer (options anonymousWorld) = None"
    by (simp add: anonymousWorld_def initialWorld_def defaultOptions_def exampleEnv_def)
  note t1 = check_cache_or_fetch [of cachedWorld exampleEnv anonymous]
  note t3 = check_cache_or_fetch [of ?w exampleEnv anonymous "\<lambda>d. Inr john" john]
  note t4 = check_cache_or_fetch [of anonymousWorld exampleEnv]
  have c1: "check exampleEnv True cachedWorld = (Inr (loginState cachedWorld), cachedWorld)"
    by (rule t1 [THEN conjunct1, THEN mp, OF h1])
  have c2: "check exampleEnv False cachedWorld
      = (Inr anonymous,
         cachedWorld\<lparr>loginState := anonymous, fetches := fetches cachedWorld + 1,
           assignments := assignments cachedWorld + 1\<rparr>)"
    by (rule t1 [THEN conjunct2, THEN conjunct2, THEN conjunct1, THEN mp, OF h2])
  have c3: "check exampleEnv False ?w
      = (Inr john, ?w\<lparr>loginState := john, fetches := fetches ?w + 1, assignments := assignments ?w + 1\<rparr>)"
    by (rule t3 [THEN conjunct2, THEN conjunct2, THEN conjunct2, THEN conjunct1, THEN mp, OF h3])
  have c4: "assignments (snd (check exampleEnv False anonymousWorld)) = assignments anonymousWorld + 1
      \<and> loginState (snd (check exampleEnv False anonymousWorld)) = loginState anonymousWorld"
    by (rule t4 [THEN conjunct2, THEN conjunct2, THEN conjunct2, THEN conjunct2, THEN conjunct2,
          THEN conjunct1, THEN mp, OF h4])
  have f: "fetches cachedWorld = 0" "loginState cachedWorld = john" "assignments cachedWorld = 0"
    "loginState anonymousWorld = anonymous" "assignments anonymousWorld = 0"
    by (simp_all add: cachedWorld_def anonymousWorld_def initialWorld_def)
  show ?thesis using c1 c2 c3 c4 f by simp
qed

section \<open>The popup handshake coordinator: the claims\<close>

text \<open>
  C9. When \<^verbatim>\<open>window.open\<close> returns null and the popup-failed notifier resolves false,
  the promise returned by \<^verbatim>\<open>login()\<close> is rejected with the message that the popup
  could not be opened and redirection has not been allowed. The notifier was called,
  no redirect is performed, no waiter is queued, and the shared state is not touched.
  The rejection also happens when other calls ran between \<^verbatim>\<open>login()\<close> and the answer
  of the notifier, the promise being still pending then.
\<close>

theorem login_popup_blocked_rejects:
  "(let (p, w1) = login env False w;
        w2 = handleFailedLoginPopupThen env p False w1
    in p = length (promiseStates w)
       \<and> pending w1 p
       \<and> promiseStates w2 = promiseStates w
           @ [Some (Rejected ''Could not open popup window and redirection has not been allowed'')]
       \<and> events w2 = events w
           @ [WindowOpened
                \<lparr>urlTarget = loginUrl (options w), urlBase = href env,
                 searchParams =
                   [(nextQueryParam (options w), normalizeUrl env (completeUrl (options w)))]\<rparr>,
              PopupFailedNotified]
       \<and> redirections (events w2) = redirections (events w)
       \<and> promises w2 = promises w
       \<and> loginState w2 = loginState w
       \<and> fetches w2 = fetches w)
   \<and> (pending w' q \<longrightarrow>
        handleFailedLoginPopupThen env q False w'
          = w'\<lparr>promiseStates := (promiseStates w')
               [q := Some (Rejected ''Could not open popup window and redirection has not been allowed'')]\<rparr>)"
  by (simp add: login_def newPromise_def emit_def handleFailedLoginPopup_def
      handleFailedLoginPopupThen_def settle_def pending_def redirections_def Let_def nth_append)

text \<open>
  C9 with a call of \<^verbatim>\<open>loginAndAuthorize\<close> between the blocked \<^verbatim>\<open>login()\<close> and the
  answer of the notifier: the promise of \<^verbatim>\<open>login()\<close> is rejected, the other promise
  stays pending, and there is no redirect.
\<close>

theorem login_popup_blocked_rejects_witness:
  "(let (p, w1) = login exampleEnv False initialWorld;
        (s, w2) = loginAndAuthorizeStart exampleEnv (Some []) () w1;
        w3 = handleFailedLoginPopupThen exampleEnv p False w2
    in pending w2 p
       \<and> promiseStates w3 = [Some (Rejected ''Could not open popup window and redirection has not been allowed''), None]
       \<and> redirections (events w3) = [])"
proof -
  obtain p w1 where l: "login exampleEnv False initialWorld = (p, w1)" by force
  obtain s w2 where a: "loginAndAuthorizeStart exampleEnv (Some []) () w1 = (s, w2)" by force
  have w2: "p = 0 \<and> promiseStates w2 = [None, None] \<and> redirections (events w2) = []"
    using l a
    by (auto simp: login_def newPromise_def emit_def handleFailedLoginPopup_def initialWorld_def
        loginAndAuthorizeStart_def check_def showLoginPopup_def exampleEnv_def defaultOptions_def
        anonymous_def guest_def redirections_def Let_def)
  then have h: "pending w2 p" by (simp add: pending_def)
  note t = login_popup_blocked_rejects [of exampleEnv initialWorld w2 p]
  have "handleFailedLoginPopupThen exampleEnv p False w2
      = w2\<lparr>promiseStates := (promiseStates w2)
           [p := Some (Rejected ''Could not open popup window and redirection has not been allowed'')]\<rparr>"
    by (rule t [THEN conjunct2, THEN mp, OF h])
  then show ?thesis using l a w2 h by simp
qed

text \<open>
  C1. Two calls of \<^verbatim>\<open>login()\<close> whose popups opened, then one message on the channel.
  The two calls leave four waiters on the queue. The handler empties the queue and
  calls none of the four: no waiter is invoked, no request for the state is sent, and
  the promises 0 and 1 returned by the two calls are both still pending.
\<close>

theorem message_after_two_logins:
  "(let (p1, w1) = login exampleEnv True initialWorld;
        (p2, w2) = login exampleEnv True w1;
        w3 = onmessage ''login'' w2
    in p1 = 0 \<and> p2 = 1
       \<and> promises w2 = [RefreshWaiter, RefreshWaiter, LoginResolver 0, LoginResolver 1]
       \<and> promises w3 = []
       \<and> invocations (events w3) = []
       \<and> promiseStates w3 = [None, None]
       \<and> fetches w3 = 0
       \<and> loginState w3 = guest)"
  by (simp add: login_def newPromise_def emit_def onmessage_def initialWorld_def Let_def
      invocations_def)

text \<open>
  C2. Nobody is logged in, in the cached state and at the state endpoint;
  \<^verbatim>\<open>loginAndAuthorize(["admin"], extra)\<close> is called and a message arrives on the
  channel. The call fetches the state, queues the waiter of \<^verbatim>\<open>showLoginPopup\<close> and
  is suspended on promise 0. After the message the state is still not logged in, the
  queue is empty and promise 0 is still pending: the call has not returned false, it
  is still suspended, and no waiter is left that could resolve its promise.
\<close>

theorem loginAndAuthorize_blocked_after_message:
  "(let (s, w1) = loginAndAuthorizeStart exampleEnv (Some [StringNeed ''admin'']) () initialWorld;
        w2 = onmessage ''login'' w1
    in s = Awaiting 0 anonymous
       \<and> promises w1 = [PopupResolver 0]
       \<and> \<not> loggedIn (loginState w2)
       \<and> promises w2 = []
       \<and> promiseStates w2 = [None]
       \<and> loginAndAuthorizeResume exampleEnv (Some [StringNeed ''admin'']) () 0 anonymous w2 = None)"
  by (simp add: loginAndAuthorizeStart_def check_def showLoginPopup_def newPromise_def emit_def
      onmessage_def initialWorld_def guest_def anonymous_def exampleEnv_def defaultOptions_def
      loginAndAuthorizeResume_def Let_def)

text \<open>
  C3, as stated, fails: \<^verbatim>\<open>showLoginPopup\<close> and then \<^verbatim>\<open>login()\<close> put their waiters on
  the queue in the order popup resolver, refresh waiter, login resolver; the queue
  holds them in the order refresh waiter, popup resolver, login resolver, and that is
  the order in which the loop declared in the handler would call them.
\<close>

theorem queue_order_counterexample:
  "(let (p, w1) = showLoginPopup () initialWorld;
        (q, w2) = login exampleEnv True w1
    in enqueueOrder (events w2) = [PopupResolver 0, RefreshWaiter, LoginResolver 1]
       \<and> promises w2 = [RefreshWaiter, PopupResolver 0, LoginResolver 1]
       \<and> promises w2 \<noteq> enqueueOrder (events w2)
       \<and> invocations (events (snd (notify exampleEnv ''login'' (promises w2) (onmessage ''login'' w2))))
           = [RefreshWaiter, PopupResolver 0, LoginResolver 1])"
  by (simp add: login_def showLoginPopup_def newPromise_def emit_def initialWorld_def Let_def
      enqueueOrder_def onmessage_def check_def exampleEnv_def defaultOptions_def guest_def
      anonymous_def settle_def invocations_def)

text \<open>
  C3, amended. For every world, whatever is queued already, a call of \<^verbatim>\<open>login()\<close>
  whose popup opened puts the refresh waiter at the head of the queue and the waiter
  that resolves the promise of this call at its end: the refresh waiter is ordered
  before the resolving waiter of the same call, and before every waiter that was
  queued earlier. The refresh waiter is put on the queue first, the resolving waiter
  second, and the promise returned is pending.
\<close>

theorem login_queue_order:
  "(let (p, w') = login env True w
    in p = length (promiseStates w)
       \<and> promises w' = RefreshWaiter # promises w @ [LoginResolver p]
       \<and> promises w' ! 0 = RefreshWaiter
       \<and> promises w' ! (length (promises w) + 1) = LoginResolver p
       \<and> length (promises w') = length (promises w) + 2
       \<and> enqueueOrder (events w') = enqueueOrder (events w) @ [RefreshWaiter, LoginResolver p]
       \<and> pending w' p)"
  by (simp add: login_def newPromise_def emit_def Let_def enqueueOrder_def pending_def nth_append)

end
